theory Spec2Isabelle
  imports Main "HOL-Library.Word" "HOL-Library.RBT"
begin

section \<open>Data model of wallet/hdkeystore.h\<close>

text \<open>
  Byte vectors (\<^verbatim>\<open>std::vector<unsigned char>\<close>, \<^verbatim>\<open>CKeyingMaterial\<close>) are lists of
  8-bit words. \<^verbatim>\<open>HDChainID\<close> is \<^verbatim>\<open>uint256\<close> and \<^verbatim>\<open>CKeyID\<close> is a 160-bit hash; both
  are the keys of a \<^verbatim>\<open>std::map\<close>, which is a red-black tree iterated in key order, so
  the maps are \<open>rbt\<close> values: \<^verbatim>\<open>m[k] = v\<close> is \<open>RBT.insert\<close>, \<^verbatim>\<open>m.find(k)\<close> is
  \<open>RBT.lookup\<close>, iteration runs over \<open>RBT.entries\<close>, \<^verbatim>\<open>m.clear()\<close> gives \<open>RBT.empty\<close>.
  The keys are ordered as words; the comparison of \<^verbatim>\<open>uint256\<close> itself is not among
  the sources. The theorems over all stores do not depend on the order of iteration,
  and on the one-byte chain identifiers of the examples a bytewise and a numeric
  comparison agree.
\<close>

type_synonym bytes = "8 word list"
type_synonym HDChainID = "256 word"
type_synonym CKeyID = "160 word"

text \<open>
  How a call ends when it does not succeed: \<^verbatim>\<open>return false\<close>, or a thrown
  \<^verbatim>\<open>std::runtime_error\<close> with its message.
\<close>

datatype failure = ReturnedFalse | Threw string

text \<open>
  \<^verbatim>\<open>CPubKey\<close>, \<^verbatim>\<open>CExtPubKey\<close> and \<^verbatim>\<open>CExtKey\<close> are declared in pubkey.h and key.h,
  outside these sources; they are the type parameters \<open>'pk\<close>, \<open>'xpk\<close> and \<open>'xk\<close>.
\<close>

record 'pk CHDPubKey =
  nVersion :: int
  pubkey :: 'pk
  nChild :: "32 word"
  chainID :: HDChainID
  keypath :: string
  internal :: bool

record 'xpk CHDChain =
  hdChain_nVersion :: int
  usePubCKD :: bool
  nCreateTime :: int
  hdChain_chainID :: HDChainID
  keypathTemplate :: string
  externalPubKey :: 'xpk
  internalPubKey :: 'xpk

text \<open>
  Modelled from the spec: the base class \<^verbatim>\<open>CCryptoKeyStore\<close> (wallet/crypter.h) is not
  among the sources. The spec's encryption collaborator provides \<^verbatim>\<open>IsCrypted()\<close>,
  \<^verbatim>\<open>EncryptSeed(plain, chainID)\<close> and \<^verbatim>\<open>DecryptSeed(blob, chainID)\<close>; the two
  wrappers return \<^verbatim>\<open>false\<close> (here \<open>None\<close>) when they fail. No function of
  hdkeystore.cpp changes this part of the object.
\<close>

record CCryptoKeyStore =
  IsCrypted :: bool
  EncryptSeed :: "bytes \<Rightarrow> HDChainID \<Rightarrow> bytes option"
  DecryptSeed :: "bytes \<Rightarrow> HDChainID \<Rightarrow> bytes option"

record ('pk, 'xpk) CHDKeyStore = CCryptoKeyStore +
  mapHDMasterSeeds :: "(HDChainID, bytes) rbt"
  mapHDCryptedMasterSeeds :: "(HDChainID, bytes) rbt"
  mapHDPubKeys :: "(CKeyID, 'pk CHDPubKey) rbt"
  mapChains :: "(HDChainID, 'xpk CHDChain) rbt"

text \<open>
  The functions of the other translation units that hdkeystore.cpp calls, taken as
  parameters: \<^verbatim>\<open>ParseInt32\<close> (utilstrencodings), the BIP32 operations of
  \<^verbatim>\<open>CExtKey\<close> and \<^verbatim>\<open>CExtPubKey\<close>, and \<^verbatim>\<open>CPubKey::IsValid\<close> and
  \<^verbatim>\<open>CPubKey::GetID\<close>. \<open>CExtKey_default\<close> is a default-constructed \<^verbatim>\<open>CExtKey\<close>.
  \<^verbatim>\<open>CExtKey::Derive\<close> writes the child into its out-parameter and returns a \<^verbatim>\<open>bool\<close>
  that \<^verbatim>\<open>PrivKeyDer\<close> ignores: \<open>CExtKey_Derive\<close> is the child it writes.
  \<open>rbegin_of_empty\<close> is the character that \<^verbatim>\<open>*fragment.rbegin()\<close> yields on an empty
  \<^verbatim>\<open>std::string\<close>: a byte in front of the string's buffer, which the sources do not
  determine.
\<close>

record ('xk, 'xpk, 'pk) externals =
  ParseInt32 :: "string \<Rightarrow> 32 word option"
  rbegin_of_empty :: char
  CExtKey_default :: 'xk
  CExtKey_Decode :: "bytes \<Rightarrow> 'xk"
  CExtKey_SetMaster :: "bytes \<Rightarrow> 'xk"
  CExtKey_Derive :: "'xk \<Rightarrow> 32 word \<Rightarrow> 'xk"
  CExtKey_Neuter :: "'xk \<Rightarrow> 'xpk"
  CExtPubKey_Derive :: "'xpk \<Rightarrow> 32 word \<Rightarrow> 'xpk option"
  CExtPubKey_pubkey :: "'xpk \<Rightarrow> 'pk"
  CPubKey_IsValid :: "'pk \<Rightarrow> bool"
  CPubKey_GetID :: "'pk \<Rightarrow> CKeyID"

text \<open>
  Modelled from the spec: \<^verbatim>\<open>BIP32_EXTKEY_SIZE\<close> is a constant of pubkey.h; the spec
  gives its value, 74 bytes.
\<close>

definition BIP32_EXTKEY_SIZE :: nat where
  "BIP32_EXTKEY_SIZE = 74"

section \<open>The seed vault\<close>

text \<open>
  Every member function takes the object and returns its result with the object after
  the call. A \<^verbatim>\<open>bool\<close> function with an out-parameter returns \<open>Inr\<close> of the value it
  writes, or \<open>Inl\<close> of how it failed.
\<close>

definition AddMasterSeed ::
  "HDChainID \<Rightarrow> bytes \<Rightarrow> ('pk, 'xpk) CHDKeyStore \<Rightarrow> bool \<times> ('pk, 'xpk) CHDKeyStore" where
  "AddMasterSeed cid masterSeed s =
     (if IsCrypted s then
        (case EncryptSeed s masterSeed cid of
           None \<Rightarrow> (False, s)
         | Some vchCryptedSecret \<Rightarrow>
             (True, s\<lparr>mapHDCryptedMasterSeeds :=
                        RBT.insert cid vchCryptedSecret (mapHDCryptedMasterSeeds s)\<rparr>))
      else (True, s\<lparr>mapHDMasterSeeds := RBT.insert cid masterSeed (mapHDMasterSeeds s)\<rparr>))"

definition AddCryptedMasterSeed ::
  "HDChainID \<Rightarrow> bytes \<Rightarrow> ('pk, 'xpk) CHDKeyStore \<Rightarrow> bool \<times> ('pk, 'xpk) CHDKeyStore" where
  "AddCryptedMasterSeed cid vchCryptedSecret s =
     (True, s\<lparr>mapHDCryptedMasterSeeds :=
                RBT.insert cid vchCryptedSecret (mapHDCryptedMasterSeeds s)\<rparr>)"

definition GetMasterSeed ::
  "HDChainID \<Rightarrow> ('pk, 'xpk) CHDKeyStore \<Rightarrow> (failure + bytes) \<times> ('pk, 'xpk) CHDKeyStore" where
  "GetMasterSeed cid s =
     (if \<not> IsCrypted s then
        (case RBT.lookup (mapHDMasterSeeds s) cid of
           None \<Rightarrow> (Inl ReturnedFalse, s)
         | Some seed \<Rightarrow> (Inr seed, s))
      else
        (case RBT.lookup (mapHDCryptedMasterSeeds s) cid of
           None \<Rightarrow> (Inl ReturnedFalse, s)
         | Some vchCryptedSecret \<Rightarrow>
             (case DecryptSeed s vchCryptedSecret cid of
                None \<Rightarrow> (Inl ReturnedFalse, s)
              | Some seed \<Rightarrow> (Inr seed, s))))"

text \<open>
  The loop of \<^verbatim>\<open>EncryptSeeds\<close> over the entries of the plaintext map, in key order; it
  stops with \<^verbatim>\<open>false\<close> at the first seed that cannot be wrapped, keeping what it has
  inserted so far.
\<close>

fun EncryptSeeds_loop ::
  "(HDChainID \<times> bytes) list \<Rightarrow> ('pk, 'xpk) CHDKeyStore \<Rightarrow> bool \<times> ('pk, 'xpk) CHDKeyStore" where
  "EncryptSeeds_loop [] s = (True, s)"
| "EncryptSeeds_loop ((cid, seed) # rest) s =
     (case EncryptSeed s seed cid of
        None \<Rightarrow> (False, s)
      | Some vchCryptedSecret \<Rightarrow>
          EncryptSeeds_loop rest (snd (AddCryptedMasterSeed cid vchCryptedSecret s)))"

definition EncryptSeeds ::
  "('pk, 'xpk) CHDKeyStore \<Rightarrow> bool \<times> ('pk, 'xpk) CHDKeyStore" where
  "EncryptSeeds s =
     (case EncryptSeeds_loop (RBT.entries (mapHDMasterSeeds s)) s of
        (False, s') \<Rightarrow> (False, s')
      | (True, s') \<Rightarrow> (True, s'\<lparr>mapHDMasterSeeds := RBT.empty\<rparr>))"

definition GetCryptedMasterSeed ::
  "HDChainID \<Rightarrow> ('pk, 'xpk) CHDKeyStore \<Rightarrow> (failure + bytes) \<times> ('pk, 'xpk) CHDKeyStore" where
  "GetCryptedMasterSeed cid s =
     (if \<not> IsCrypted s then (Inl ReturnedFalse, s)
      else
        (case RBT.lookup (mapHDCryptedMasterSeeds s) cid of
           None \<Rightarrow> (Inl ReturnedFalse, s)
         | Some vchCryptedSecret \<Rightarrow> (Inr vchCryptedSecret, s)))"

text \<open>A caller that inserts the pairs of a list one after the other, first to last.\<close>

fun AddMasterSeeds ::
  "(HDChainID \<times> bytes) list \<Rightarrow> ('pk, 'xpk) CHDKeyStore \<Rightarrow> bool \<times> ('pk, 'xpk) CHDKeyStore" where
  "AddMasterSeeds [] s = (True, s)"
| "AddMasterSeeds ((cid, seed) # rest) s =
     (case AddMasterSeed cid seed s of
        (ok, s') \<Rightarrow> (case AddMasterSeeds rest s' of (oks, s'') \<Rightarrow> (ok \<and> oks, s'')))"

section \<open>Chain registry and pubkey catalog\<close>

definition LoadHDPubKey ::
  "('xk, 'xpk, 'pk) externals \<Rightarrow> 'pk CHDPubKey \<Rightarrow> ('pk, 'xpk) CHDKeyStore
     \<Rightarrow> bool \<times> ('pk, 'xpk) CHDKeyStore" where
  "LoadHDPubKey E hdPubKey s =
     (True, s\<lparr>mapHDPubKeys :=
                RBT.insert (CPubKey_GetID E (pubkey hdPubKey)) hdPubKey (mapHDPubKeys s)\<rparr>)"

definition AddChain ::
  "'xpk CHDChain \<Rightarrow> ('pk, 'xpk) CHDKeyStore \<Rightarrow> bool \<times> ('pk, 'xpk) CHDKeyStore" where
  "AddChain chain s =
     (True, s\<lparr>mapChains := RBT.insert (hdChain_chainID chain) chain (mapChains s)\<rparr>)"

definition GetChain ::
  "HDChainID \<Rightarrow> ('pk, 'xpk) CHDKeyStore
     \<Rightarrow> (failure + 'xpk CHDChain) \<times> ('pk, 'xpk) CHDKeyStore" where
  "GetChain cid s =
     (case RBT.lookup (mapChains s) cid of
        None \<Rightarrow> (Inl ReturnedFalse, s)
      | Some chain \<Rightarrow> (Inr chain, s))"

section \<open>Keypaths\<close>

text \<open>
  \<^verbatim>\<open>boost::split(pathFragments, keypath, boost::is_any_of("/"))\<close>: the fragments
  between the slashes, empty ones kept; the empty string has the one fragment \<open>[]\<close>.
\<close>

fun split_slash :: "string \<Rightarrow> string list" where
  "split_slash [] = [[]]"
| "split_slash (ch # rest) =
     (if ch = CHR ''/'' then [] # split_slash rest
      else (case split_slash rest of
              [] \<Rightarrow> [[ch]]
            | fragment # fragments \<Rightarrow> (ch # fragment) # fragments))"

text \<open>
  \<^verbatim>\<open>boost::replace_all(input, "c", format)\<close>: the search string is the one character
  \<^verbatim>\<open>c\<close>, so every occurrence of that character is replaced by the format string.
\<close>

definition replace_all :: "string \<Rightarrow> char \<Rightarrow> string \<Rightarrow> string" where
  "replace_all input search format =
     concat (map (\<lambda>ch. if ch = search then format else [ch]) input)"

text \<open>
  Modelled from the spec: \<^verbatim>\<open>itostr(int)\<close> (utilstrencodings.h) is not among the
  sources; the spec appends the index in decimal (\<^verbatim>\<open>/<nIndex>\<close>) and replaces \<^verbatim>\<open>c\<close> by
  \<^verbatim>\<open>"0"\<close> or \<^verbatim>\<open>"1"\<close>. It prints a signed decimal numeral.
\<close>

function dec_digits :: "int \<Rightarrow> string" where
  "dec_digits n =
     (if n < 10 then [''0123456789'' ! nat n]
      else dec_digits (n div 10) @ [''0123456789'' ! nat (n mod 10)])"
  by pat_completeness auto

termination dec_digits
  by (relation "measure nat") auto

declare dec_digits.simps [simp del]

definition itostr :: "int \<Rightarrow> string" where
  "itostr n = (if n < 0 then CHR ''-'' # dec_digits (- n) else dec_digits n)"

section \<open>The derivation engine\<close>

text \<open>
  One round of the \<^verbatim>\<open>BOOST_FOREACH\<close> of \<^verbatim>\<open>PrivKeyDer\<close>, on the working key
  \<open>parentKey\<close>. \<^verbatim>\<open>*fragment.rbegin()\<close> reads the last character of the fragment; on an
  empty fragment there is none and it reads \<open>rbegin_of_empty\<close>. \<^verbatim>\<open>substr\<close> drops the
  hardened marker; on an empty fragment \<^verbatim>\<open>size()-1\<close> wraps around and \<^verbatim>\<open>substr\<close> keeps
  the empty string. \<^verbatim>\<open>(harden ? 0x80000000 : 0)+nIndex\<close> is unsigned 32-bit
  arithmetic. \<^verbatim>\<open>&masterSeed[0]\<close> only takes the address of the first byte; with the
  size it hands the bytes of the seed to \<^verbatim>\<open>Decode\<close> or \<^verbatim>\<open>SetMaster\<close>.
\<close>

definition PrivKeyDer_fragment ::
  "('xk, 'xpk, 'pk) externals \<Rightarrow> HDChainID \<Rightarrow> 'xk \<Rightarrow> string \<Rightarrow> ('pk, 'xpk) CHDKeyStore
     \<Rightarrow> (failure + 'xk) \<times> ('pk, 'xpk) CHDKeyStore" where
  "PrivKeyDer_fragment E cid parentKey fragment0 s =
     (let harden = ((if fragment0 = [] then rbegin_of_empty E else last fragment0) = CHR 0x27);
          fragment = (if harden then butlast fragment0 else fragment0)
      in
        if fragment = ''m'' then
          (case GetMasterSeed cid s of
             (Inl e, s') \<Rightarrow> (Inl ReturnedFalse, s')
           | (Inr masterSeed, s') \<Rightarrow>
               (Inr (if length masterSeed = BIP32_EXTKEY_SIZE
                     then CExtKey_Decode E masterSeed
                     else CExtKey_SetMaster E masterSeed), s'))
        else if fragment = ''c'' then (Inl ReturnedFalse, s)
        else
          (case ParseInt32 E fragment of
             None \<Rightarrow> (Inl ReturnedFalse, s)
           | Some nIndex \<Rightarrow>
               (Inr (CExtKey_Derive E parentKey
                       ((if harden then 0x80000000 else 0) + nIndex)), s)))"

fun PrivKeyDer_loop ::
  "('xk, 'xpk, 'pk) externals \<Rightarrow> HDChainID \<Rightarrow> 'xk \<Rightarrow> string list \<Rightarrow> ('pk, 'xpk) CHDKeyStore
     \<Rightarrow> (failure + 'xk) \<times> ('pk, 'xpk) CHDKeyStore" where
  "PrivKeyDer_loop E cid parentKey [] s = (Inr parentKey, s)"
| "PrivKeyDer_loop E cid parentKey (fragment # rest) s =
     (case PrivKeyDer_fragment E cid parentKey fragment s of
        (Inl e, s') \<Rightarrow> (Inl e, s')
      | (Inr key, s') \<Rightarrow> PrivKeyDer_loop E cid key rest s')"

definition PrivKeyDer ::
  "('xk, 'xpk, 'pk) externals \<Rightarrow> string \<Rightarrow> HDChainID \<Rightarrow> ('pk, 'xpk) CHDKeyStore
     \<Rightarrow> (failure + 'xk) \<times> ('pk, 'xpk) CHDKeyStore" where
  "PrivKeyDer E path cid s =
     PrivKeyDer_loop E cid (CExtKey_default E) (split_slash path) s"

section \<open>The facade\<close>

text \<open>
  \<^verbatim>\<open>DeriveHDPubKeyAtIndex\<close> updates the caller's record \<open>hdPubKeyOut\<close>; the result
  is that record when the call returns \<^verbatim>\<open>true\<close>, and how the call ended otherwise (a
  call that throws after the index check has already assigned the keypath of the
  caller's record; the exception is what the model keeps). \<^verbatim>\<open>nVersion\<close> is not
  assigned. \<^verbatim>\<open>itostr(internal)\<close> converts the \<^verbatim>\<open>bool\<close> to 0 or 1,
  \<^verbatim>\<open>itostr(nIndex)\<close> the \<^verbatim>\<open>unsigned int\<close> to \<^verbatim>\<open>int\<close>.
\<close>

definition DeriveHDPubKeyAtIndex ::
  "('xk, 'xpk, 'pk) externals \<Rightarrow> HDChainID \<Rightarrow> 'pk CHDPubKey \<Rightarrow> 32 word \<Rightarrow> bool
     \<Rightarrow> ('pk, 'xpk) CHDKeyStore \<Rightarrow> (failure + 'pk CHDPubKey) \<times> ('pk, 'xpk) CHDKeyStore" where
  "DeriveHDPubKeyAtIndex E cid hdPubKeyOut nIndex intern s =
     (case GetChain cid s of
        (Inl e, s1) \<Rightarrow> (Inl ReturnedFalse, s1)
      | (Inr hdChain, s1) \<Rightarrow>
          if nIndex \<ge> 0x80000000 then
            (Inl (Threw ''CHDKeyStore::DeriveHDPubKeyAtIndex(): No more available keys!''), s1)
          else
            let path0 = replace_all (keypathTemplate hdChain) (CHR ''c'')
                          (itostr (if intern then 1 else 0))
            in
              if (intern \<and> \<not> CPubKey_IsValid E (CExtPubKey_pubkey E (internalPubKey hdChain)))
                 \<or> \<not> CPubKey_IsValid E (CExtPubKey_pubkey E (externalPubKey hdChain))
              then
                let path = path0 @ ''/'' @ itostr (sint nIndex) @ [CHR 0x27] in
                  (case PrivKeyDer E path cid s1 of
                     (Inl e, s2) \<Rightarrow>
                       (Inl (Threw ''CHDKeyStore::DeriveHDPubKeyAtIndex(): Private Key Derivation failed!''), s2)
                   | (Inr extKeyOut, s2) \<Rightarrow>
                       (Inr (hdPubKeyOut\<lparr>keypath := path,
                               pubkey := CExtPubKey_pubkey E (CExtKey_Neuter E extKeyOut),
                               chainID := cid, nChild := nIndex, internal := intern\<rparr>), s2))
              else
                let path = path0 @ ''/'' @ itostr (sint nIndex);
                    useExtKey = (if intern then internalPubKey hdChain else externalPubKey hdChain)
                in
                  (case CExtPubKey_Derive E useExtKey nIndex of
                     None \<Rightarrow>
                       (Inl (Threw ''CHDKeyStore::DeriveHDPubKeyAtIndex(): Key deriving failed!''), s1)
                   | Some childKey \<Rightarrow>
                       (Inr (hdPubKeyOut\<lparr>keypath := path,
                               pubkey := CExtPubKey_pubkey E childKey,
                               chainID := cid, nChild := nIndex, internal := intern\<rparr>), s1)))"

text \<open>
  \<^verbatim>\<open>GetNextChildIndex\<close>: the indices of the catalog's records of the chain and side, in
  the catalog's order, then the first \<open>i\<close> below \<open>0x80000000\<close> that \<^verbatim>\<open>std::find\<close> does
  not find among them, and 0 when there is none.
\<close>

definition collect_indices ::
  "HDChainID \<Rightarrow> bool \<Rightarrow> ('pk, 'xpk) CHDKeyStore \<Rightarrow> 32 word list" where
  "collect_indices cid intern s =
     map nChild
       (filter (\<lambda>r. chainID r = cid \<and> internal r = intern)
          (map snd (RBT.entries (mapHDPubKeys s))))"

function first_unused :: "32 word list \<Rightarrow> 32 word \<Rightarrow> 32 word" where
  "first_unused vIndices i =
     (if i < 0x80000000 then
        (if i \<notin> set vIndices then i else first_unused vIndices (i + 1))
      else 0)"
  by pat_completeness auto

termination first_unused
proof (relation "measure (\<lambda>(vIndices, i). 2 ^ 31 - unat i)")
  show "wf (measure (\<lambda>(vIndices :: 32 word list, i :: 32 word). 2 ^ 31 - unat i))"
    by simp
next
  fix vIndices :: "32 word list" and i :: "32 word"
  assume "i < 0x80000000"
  then have below: "unat i < 2147483648"
    by (simp add: word_less_nat_alt)
  then have "unat i + unat (1 :: 32 word) < 2 ^ LENGTH(32)"
    by simp
  then have "unat (i + 1) = unat i + unat (1 :: 32 word)"
    by (simp only: unat_add_lem)
  with below
  show "((vIndices, i + 1), (vIndices, i)) \<in> measure (\<lambda>(vIndices, i). 2 ^ 31 - unat i)"
    by simp
qed

declare first_unused.simps [simp del]

definition GetNextChildIndex ::
  "HDChainID \<Rightarrow> bool \<Rightarrow> ('pk, 'xpk) CHDKeyStore \<Rightarrow> 32 word \<times> ('pk, 'xpk) CHDKeyStore" where
  "GetNextChildIndex cid intern s = (first_unused (collect_indices cid intern s) 0, s)"

text \<open>
  The two seed maps are disjoint when no chain of the plaintext map is in the crypted
  map.
\<close>

definition seeds_disjoint :: "('pk, 'xpk) CHDKeyStore \<Rightarrow> bool" where
  "seeds_disjoint s =
     list_all (\<lambda>cid. RBT.lookup (mapHDCryptedMasterSeeds s) cid = None)
       (RBT.keys (mapHDMasterSeeds s))"

text \<open>
  An index is in use for a chain and a side when a record of the catalog has that chain,
  that side and that \<open>nChild\<close>.
\<close>

definition index_used ::
  "HDChainID \<Rightarrow> bool \<Rightarrow> ('pk, 'xpk) CHDKeyStore \<Rightarrow> 32 word \<Rightarrow> bool" where
  "index_used cid intern s i =
     list_ex (\<lambda>(keyID, r). chainID r = cid \<and> internal r = intern \<and> nChild r = i)
       (RBT.entries (mapHDPubKeys s))"

section \<open>A small instance of the collaborators\<close>

text \<open>
  Keys are integers: the decoded master key is 1, the master key of raw entropy
  is 2, a child is \<open>100 * parent + index\<close>, a public key is valid unless it is 0.
  \<open>demo_ParseInt32\<close> reads unsigned decimal numerals below \<open>2^31\<close> and rejects the
  empty string. The cipher of \<open>demo_store\<close> reverses the bytes and cannot wrap the seed
  of chain 2.
\<close>

definition dec_value :: "string \<Rightarrow> int" where
  "dec_value str = foldl (\<lambda>acc ch. 10 * acc + (of_char ch - 48)) 0 str"

definition demo_ParseInt32 :: "string \<Rightarrow> 32 word option" where
  "demo_ParseInt32 str =
     (if str \<noteq> [] \<and> list_all (\<lambda>ch. List.member ''0123456789'' ch) str
         \<and> dec_value str < 2147483648
      then Some (of_int (dec_value str)) else None)"

definition demo_externals :: "(int, int, int) externals" where
  "demo_externals =
     \<lparr>ParseInt32 = demo_ParseInt32,
      rbegin_of_empty = CHR 0x00,
      CExtKey_default = 0,
      CExtKey_Decode = (\<lambda>seed. 1),
      CExtKey_SetMaster = (\<lambda>seed. 2),
      CExtKey_Derive = (\<lambda>key n. 100 * key + uint n),
      CExtKey_Neuter = (\<lambda>key. key + 7),
      CExtPubKey_Derive = (\<lambda>key n. if n < 0x80000000 then Some (100 * key + uint n) else None),
      CExtPubKey_pubkey = (\<lambda>key. key),
      CPubKey_IsValid = (\<lambda>key. key \<noteq> 0),
      CPubKey_GetID = (\<lambda>key. of_int key)\<rparr>"

definition demo_store :: "bool \<Rightarrow> (int, int) CHDKeyStore" where
  "demo_store crypted =
     \<lparr>IsCrypted = crypted,
      EncryptSeed = (\<lambda>seed cid. if cid = 2 then None else Some (rev seed)),
      DecryptSeed = (\<lambda>blob cid. Some (rev blob)),
      mapHDMasterSeeds = RBT.empty,
      mapHDCryptedMasterSeeds = RBT.empty,
      mapHDPubKeys = RBT.empty,
      mapChains = RBT.empty\<rparr>"

text \<open>
  A plaintext store with three seeds, of 74, 73 and 75 bytes, for the chains 1, 2 and 3.
\<close>

definition demo_seeded :: "(int, int) CHDKeyStore" where
  "demo_seeded =
     snd (AddMasterSeeds [(1, replicate 74 0), (2, replicate 73 0), (3, replicate 75 0)]
            (demo_store False))"

text \<open>
  Two chains on the seeded store: chain 1 with both roots valid, chain 2 with no
  internal root; and a freshly constructed \<^verbatim>\<open>CHDPubKey\<close>.
\<close>

definition demo_chain :: "HDChainID \<Rightarrow> int \<Rightarrow> int \<Rightarrow> int CHDChain" where
  "demo_chain cid ext_key int_key =
     \<lparr>hdChain_nVersion = 1, usePubCKD = (ext_key \<noteq> 0), nCreateTime = 0, hdChain_chainID = cid,
      keypathTemplate = ''m/0'/c'', externalPubKey = ext_key, internalPubKey = int_key\<rparr>"

definition demo_wallet :: "(int, int) CHDKeyStore" where
  "demo_wallet =
     snd (AddChain (demo_chain 2 5 0) (snd (AddChain (demo_chain 1 5 6) demo_seeded)))"

definition demo_out :: "int CHDPubKey" where
  "demo_out = \<lparr>nVersion = 1, pubkey = 0, nChild = 0, chainID = 0, keypath = [], internal = False\<rparr>"

text \<open>
  A catalog with the external records 0 and 2 and the internal record 1 of chain 1.
\<close>

definition demo_record :: "int \<Rightarrow> HDChainID \<Rightarrow> bool \<Rightarrow> 32 word \<Rightarrow> int CHDPubKey" where
  "demo_record key cid intern n =
     \<lparr>nVersion = 1, pubkey = key, nChild = n, chainID = cid, keypath = [], internal = intern\<rparr>"

definition demo_catalog :: "(int, int) CHDKeyStore" where
  "demo_catalog =
     snd (LoadHDPubKey demo_externals (demo_record 13 1 True 1)
       (snd (LoadHDPubKey demo_externals (demo_record 12 1 False 2)
         (snd (LoadHDPubKey demo_externals (demo_record 11 1 False 0) demo_wallet)))))"

text \<open>A plaintext store with the seed of chain 1 only.\<close>

definition demo_plain :: "(int, int) CHDKeyStore" where
  "demo_plain = snd (AddMasterSeed 1 [1, 2, 3] (demo_store False))"



section \<open>Seed round trip in the plaintext state\<close>

lemma AddMasterSeeds_plain:
  "\<not> IsCrypted s \<Longrightarrow>
   AddMasterSeeds ps s =
     (True, s\<lparr>mapHDMasterSeeds :=
                foldl (\<lambda>m (cid, seed). RBT.insert cid seed m) (mapHDMasterSeeds s) ps\<rparr>)"
proof (induction ps arbitrary: s)
  case Nil
  then show ?case by simp
next
  case (Cons p ps)
  obtain cid seed where p: "p = (cid, seed)" by (cases p)
  let ?s' = "s\<lparr>mapHDMasterSeeds := RBT.insert cid seed (mapHDMasterSeeds s)\<rparr>"
  from Cons.prems have step: "AddMasterSeed cid seed s = (True, ?s')"
    by (simp add: AddMasterSeed_def)
  have "\<not> IsCrypted ?s'" using Cons.prems by simp
  from Cons.IH [OF this] step show ?case
    by (simp add: p)
qed

lemma lookup_foldl_insert:
  "RBT.lookup (foldl (\<lambda>m (cid, seed). RBT.insert cid seed m) m ps)
     = RBT.lookup m ++ map_of (rev ps)"
proof (induction ps arbitrary: m)
  case Nil
  then show ?case by simp
next
  case (Cons p ps)
  obtain cid seed where p: "p = (cid, seed)" by (cases p)
  show ?case
    by (simp add: Cons.IH p map_add_upd [symmetric] del: map_add_upd)
       (simp add: map_add_def fun_eq_iff split: option.splits)
qed

text \<open>
  Claim C7. In the plaintext state (\<^verbatim>\<open>IsCrypted()\<close> false), after the pairs of \<open>ps\<close>
  have been inserted by \<^verbatim>\<open>AddMasterSeed\<close> in order, every insertion has returned
  \<^verbatim>\<open>true\<close> and \<^verbatim>\<open>GetMasterSeed(chainID)\<close> succeeds with exactly the seed of the last
  pair inserted for that chain: the round trip, the most recent insertion winning.
\<close>

theorem AddMasterSeed_GetMasterSeed_roundtrip:
  assumes "\<not> IsCrypted s" and "map_of (rev ps) cid = Some seed"
  shows "fst (AddMasterSeeds ps s)
       \<and> fst (GetMasterSeed cid (snd (AddMasterSeeds ps s))) = Inr seed"
  using assms
  by (simp add: AddMasterSeeds_plain GetMasterSeed_def lookup_foldl_insert map_add_def)

theorem AddMasterSeed_GetMasterSeed_roundtrip_witness:
  "\<not> IsCrypted (demo_store False)
   \<and> map_of (rev [(1, [1, 2]), (2, [3]), (1, [4, 5, 6])]) (1 :: HDChainID) = Some [4, 5, 6]
   \<and> fst (AddMasterSeeds [(1, [1, 2]), (2, [3]), (1, [4, 5, 6])] (demo_store False))
   \<and> fst (GetMasterSeed 1
            (snd (AddMasterSeeds [(1, [1, 2]), (2, [3]), (1, [4, 5, 6])] (demo_store False))))
       = Inr [4, 5, 6]"
proof -
  have a: "\<not> IsCrypted (demo_store False)"
    by (simp add: demo_store_def)
  have b: "map_of (rev [(1, [1, 2]), (2, [3]), (1, [4, 5, 6])]) (1 :: HDChainID) = Some [4, 5, 6]"
    by simp
  show ?thesis
    using a b AddMasterSeed_GetMasterSeed_roundtrip [OF a b] by simp
qed

section \<open>Walking the fragments of a keypath\<close>

lemma snd_GetMasterSeed [simp]: "snd (GetMasterSeed cid s) = s"
  by (simp add: GetMasterSeed_def split: option.splits)

lemma snd_PrivKeyDer_fragment [simp]: "snd (PrivKeyDer_fragment E cid parentKey fragment s) = s"
proof -
  obtain r s' where g: "GetMasterSeed cid s = (r, s')" by (cases "GetMasterSeed cid s")
  then have "s' = s" using snd_GetMasterSeed [of cid s] by simp
  with g show ?thesis
    by (simp add: PrivKeyDer_fragment_def Let_def split: option.splits sum.splits)
qed

lemma snd_PrivKeyDer_loop [simp]: "snd (PrivKeyDer_loop E cid parentKey fragments s) = s"
proof (induction fragments arbitrary: parentKey)
  case Nil
  then show ?case by simp
next
  case (Cons fragment rest)
  obtain r s' where f: "PrivKeyDer_fragment E cid parentKey fragment s = (r, s')"
    by (cases "PrivKeyDer_fragment E cid parentKey fragment s")
  then have "s' = s" using snd_PrivKeyDer_fragment [of E cid parentKey fragment s] by simp
  with f Cons.IH show ?case
    by (simp split: sum.splits)
qed

lemma PrivKeyDer_loop_Cons:
  "fst (PrivKeyDer_loop E cid parentKey (fragment # rest) s) =
     (case fst (PrivKeyDer_fragment E cid parentKey fragment s) of
        Inl e \<Rightarrow> Inl e
      | Inr key \<Rightarrow> fst (PrivKeyDer_loop E cid key rest s))"
proof -
  obtain r s' where f: "PrivKeyDer_fragment E cid parentKey fragment s = (r, s')"
    by (cases "PrivKeyDer_fragment E cid parentKey fragment s")
  then have "s' = s" using snd_PrivKeyDer_fragment [of E cid parentKey fragment s] by simp
  with f show ?thesis by (simp split: sum.splits)
qed

lemma PrivKeyDer_loop_append:
  "fst (PrivKeyDer_loop E cid parentKey (pre @ post) s) =
     (case fst (PrivKeyDer_loop E cid parentKey pre s) of
        Inl e \<Rightarrow> Inl e
      | Inr key \<Rightarrow> fst (PrivKeyDer_loop E cid key post s))"
proof (induction pre arbitrary: parentKey)
  case Nil
  then show ?case by simp
next
  case (Cons fragment pre)
  show ?case
    by (simp add: PrivKeyDer_loop_Cons Cons.IH del: PrivKeyDer_loop.simps split: sum.splits)
qed

lemma fragment_master:
  assumes "fragment = ''m'' \<or> fragment = ''m'' @ [CHR 0x27]"
  shows "fst (PrivKeyDer_fragment E cid parentKey fragment s) =
     (case fst (GetMasterSeed cid s) of
        Inl e \<Rightarrow> Inl ReturnedFalse
      | Inr masterSeed \<Rightarrow>
          Inr (if length masterSeed = 74 then CExtKey_Decode E masterSeed
               else CExtKey_SetMaster E masterSeed))"
proof -
  obtain r s' where g: "GetMasterSeed cid s = (r, s')" by (cases "GetMasterSeed cid s")
  with assms show ?thesis
    by (auto simp: PrivKeyDer_fragment_def BIP32_EXTKEY_SIZE_def split: sum.splits)
qed

lemma fragment_switch:
  assumes "fragment = ''c'' \<or> fragment = ''c'' @ [CHR 0x27]"
  shows "fst (PrivKeyDer_fragment E cid parentKey fragment s) = Inl ReturnedFalse"
  using assms by (auto simp: PrivKeyDer_fragment_def)


lemma fragment_failure:
  "fst (PrivKeyDer_fragment E cid parentKey fragment s) = Inl e \<Longrightarrow> e = ReturnedFalse"
proof -
  obtain r s' where g: "GetMasterSeed cid s = (r, s')" by (cases "GetMasterSeed cid s")
  assume "fst (PrivKeyDer_fragment E cid parentKey fragment s) = Inl e"
  with g show ?thesis
    by (simp add: PrivKeyDer_fragment_def Let_def split: if_splits option.splits sum.splits)
qed

lemma loop_failure:
  "fst (PrivKeyDer_loop E cid parentKey fragments s) = Inl e \<Longrightarrow> e = ReturnedFalse"
proof (induction fragments arbitrary: parentKey)
  case Nil
  then show ?case by simp
next
  case (Cons fragment rest)
  show ?case
  proof (cases "fst (PrivKeyDer_fragment E cid parentKey fragment s)")
    case (Inl e')
    with Cons.prems have "e' = e"
      by (simp add: PrivKeyDer_loop_Cons del: PrivKeyDer_loop.simps)
    with Inl show ?thesis
      by (simp add: fragment_failure)
  next
    case (Inr key)
    with Cons.prems have "fst (PrivKeyDer_loop E cid key rest s) = Inl e"
      by (simp add: PrivKeyDer_loop_Cons del: PrivKeyDer_loop.simps)
    then show ?thesis
      by (rule Cons.IH)
  qed
qed


lemma split_slash_nonempty [simp]: "split_slash path \<noteq> []"
  by (induction path) (auto split: list.splits)


section \<open>Master, switch and empty fragments\<close>

text \<open>
  Claim C8. When the walk reaches the master fragment (\<^verbatim>\<open>m\<close>, with or without the
  hardened marker) and \<^verbatim>\<open>GetMasterSeed\<close> yields a seed, the working key becomes the
  decoded extended key if the seed is exactly 74 bytes long and \<^verbatim>\<open>SetMaster\<close> of the
  raw bytes for every other length: the length alone decides. The same holds for the
  whole path \<^verbatim>\<open>m\<close>.
\<close>

theorem PrivKeyDer_master_seed_by_length:
  assumes "fst (GetMasterSeed cid s) = Inr masterSeed"
    and "fragment = ''m'' \<or> fragment = ''m'' @ [CHR 0x27]"
  shows "fst (PrivKeyDer_fragment E cid parentKey fragment s) =
           Inr (if length masterSeed = 74 then CExtKey_Decode E masterSeed
                else CExtKey_SetMaster E masterSeed)
       \<and> fst (PrivKeyDer E ''m'' cid s) =
           Inr (if length masterSeed = 74 then CExtKey_Decode E masterSeed
                else CExtKey_SetMaster E masterSeed)"
proof -
  have "fst (PrivKeyDer E ''m'' cid s) =
          fst (PrivKeyDer_fragment E cid (CExtKey_default E) ''m'' s)"
    by (simp add: PrivKeyDer_def PrivKeyDer_loop_Cons del: PrivKeyDer_loop.simps(2) split: sum.splits)
  then show ?thesis
    using assms by (simp add: fragment_master)
qed

theorem PrivKeyDer_master_seed_by_length_witness:
  "fst (GetMasterSeed 1 demo_seeded) = Inr (replicate 74 0)
   \<and> fst (PrivKeyDer demo_externals ''m'' 1 demo_seeded) = Inr 1
   \<and> fst (GetMasterSeed 2 demo_seeded) = Inr (replicate 73 0)
   \<and> fst (PrivKeyDer demo_externals ''m'' 2 demo_seeded) = Inr 2
   \<and> fst (GetMasterSeed 3 demo_seeded) = Inr (replicate 75 0)
   \<and> fst (PrivKeyDer demo_externals ''m'' 3 demo_seeded) = Inr 2"
proof -
  have g1: "fst (GetMasterSeed 1 demo_seeded) = Inr (replicate 74 0)"
    by (simp add: demo_seeded_def demo_store_def AddMasterSeed_def GetMasterSeed_def)
  have g2: "fst (GetMasterSeed 2 demo_seeded) = Inr (replicate 73 0)"
    by (simp add: demo_seeded_def demo_store_def AddMasterSeed_def GetMasterSeed_def)
  have g3: "fst (GetMasterSeed 3 demo_seeded) = Inr (replicate 75 0)"
    by (simp add: demo_seeded_def demo_store_def AddMasterSeed_def GetMasterSeed_def)
  have m: "''m'' = ''m'' \<or> ''m'' = ''m'' @ [CHR 0x27]"
    by simp
  show ?thesis
    using g1 g2 g3
      PrivKeyDer_master_seed_by_length [OF g1 m, of demo_externals 0]
      PrivKeyDer_master_seed_by_length [OF g2 m, of demo_externals 0]
      PrivKeyDer_master_seed_by_length [OF g3 m, of demo_externals 0]
    by (simp add: demo_externals_def)
qed

text \<open>
  Claim C6 as stated fails: the path \<^verbatim>\<open>m/0/m\<close> has the fragment \<^verbatim>\<open>m\<close> at position 2
  and \<^verbatim>\<open>PrivKeyDer\<close> returns \<^verbatim>\<open>true\<close> with the master key of the chain.
\<close>

theorem PrivKeyDer_master_anywhere_counterexample:
  "fst (PrivKeyDer demo_externals ''m/0/m'' 2 demo_seeded) = Inr 2"
  by code_simp

text \<open>
  Claim C6, amended. When the walk reaches a fragment \<^verbatim>\<open>c\<close> (with or without the
  hardened marker), \<^verbatim>\<open>PrivKeyDer\<close> returns \<^verbatim>\<open>false\<close>. The fragment \<^verbatim>\<open>m\<close> is accepted
  at every position: wherever the walk reaches it, the working key is replaced by the
  master key read from the seed and the walk goes on from there; it fails there only
  when the seed cannot be obtained.
\<close>

theorem PrivKeyDer_switch_and_master_segments:
  assumes "split_slash path = pre @ fragment # post"
    and "fst (PrivKeyDer_loop E cid (CExtKey_default E) pre s) = Inr key"
  shows "(fragment = ''c'' \<or> fragment = ''c'' @ [CHR 0x27]
            \<longrightarrow> fst (PrivKeyDer E path cid s) = Inl ReturnedFalse)
       \<and> (fragment = ''m'' \<or> fragment = ''m'' @ [CHR 0x27]
            \<longrightarrow> fst (PrivKeyDer E path cid s) =
                (case fst (GetMasterSeed cid s) of
                   Inl e \<Rightarrow> Inl ReturnedFalse
                 | Inr masterSeed \<Rightarrow>
                     fst (PrivKeyDer_loop E cid
                            (if length masterSeed = 74 then CExtKey_Decode E masterSeed
                             else CExtKey_SetMaster E masterSeed) post s)))"
proof -
  have walk: "fst (PrivKeyDer E path cid s) =
      (case fst (PrivKeyDer_fragment E cid key fragment s) of
         Inl e \<Rightarrow> Inl e
       | Inr key' \<Rightarrow> fst (PrivKeyDer_loop E cid key' post s))"
    using assms
    by (simp add: PrivKeyDer_def PrivKeyDer_loop_append PrivKeyDer_loop_Cons
        del: PrivKeyDer_loop.simps(2))
  show ?thesis
  proof (intro conjI impI)
    assume "fragment = ''c'' \<or> fragment = ''c'' @ [CHR 0x27]"
    then show "fst (PrivKeyDer E path cid s) = Inl ReturnedFalse"
      by (simp add: walk fragment_switch)
  next
    assume "fragment = ''m'' \<or> fragment = ''m'' @ [CHR 0x27]"
    then show "fst (PrivKeyDer E path cid s) =
                (case fst (GetMasterSeed cid s) of
                   Inl e \<Rightarrow> Inl ReturnedFalse
                 | Inr masterSeed \<Rightarrow>
                     fst (PrivKeyDer_loop E cid
                            (if length masterSeed = 74 then CExtKey_Decode E masterSeed
                             else CExtKey_SetMaster E masterSeed) post s))"
      by (simp add: walk fragment_master split: sum.splits)
  qed
qed

theorem PrivKeyDer_switch_and_master_segments_witness:
  "split_slash ''m/0/c/5'' = [''m'', ''0''] @ ''c'' # [''5'']
   \<and> split_slash ''m/0/m/5'' = [''m'', ''0''] @ ''m'' # [''5'']
   \<and> fst (PrivKeyDer_loop demo_externals 2 (CExtKey_default demo_externals) [''m'', ''0'']
             demo_seeded) = Inr 200
   \<and> fst (PrivKeyDer demo_externals ''m/0/c/5'' 2 demo_seeded) = Inl ReturnedFalse
   \<and> fst (PrivKeyDer demo_externals ''m/0/m/5'' 2 demo_seeded) = Inr 205"
proof -
  have c: "split_slash ''m/0/c/5'' = [''m'', ''0''] @ ''c'' # [''5'']"
    by simp
  have m: "split_slash ''m/0/m/5'' = [''m'', ''0''] @ ''m'' # [''5'']"
    by simp
  have pre: "fst (PrivKeyDer_loop demo_externals 2 (CExtKey_default demo_externals)
                    [''m'', ''0''] demo_seeded) = Inr 200"
    by code_simp
  have g: "fst (GetMasterSeed 2 demo_seeded) = Inr (replicate 73 0)"
    by (simp add: demo_seeded_def demo_store_def AddMasterSeed_def GetMasterSeed_def)
  have post: "fst (PrivKeyDer_loop demo_externals 2 2 [''5''] demo_seeded) = Inr 205"
    by code_simp
  show ?thesis
    using c m pre post g
      PrivKeyDer_switch_and_master_segments [OF c pre]
      PrivKeyDer_switch_and_master_segments [OF m pre]
    by (simp add: demo_externals_def)
qed





section \<open>Deriving a public key at an index\<close>





lemma snd_PrivKeyDer [simp]: "snd (PrivKeyDer E path cid s) = s"
  by (simp add: PrivKeyDer_def)

lemma PrivKeyDer_pair: "PrivKeyDer E path cid s = (fst (PrivKeyDer E path cid s), s)"
  using snd_PrivKeyDer [of E path cid s] by (cases "PrivKeyDer E path cid s") simp










text \<open>
  Claim C3 as stated fails. For the unregistered chain 7 the call with index \<open>2^31\<close>
  returns \<^verbatim>\<open>false\<close>, as it does with index 0: the chain lookup comes before the index
  check. For the registered chain 1 the index \<open>2^31\<close> ends the call by a thrown
  \<^verbatim>\<open>std::runtime_error\<close>, not by the return value.
\<close>

theorem DeriveHDPubKeyAtIndex_index_bound_counterexample:
  "fst (DeriveHDPubKeyAtIndex demo_externals 7 demo_out 0x80000000 False demo_wallet)
     = Inl ReturnedFalse
   \<and> fst (DeriveHDPubKeyAtIndex demo_externals 7 demo_out 0 False demo_wallet)
     = Inl ReturnedFalse
   \<and> fst (DeriveHDPubKeyAtIndex demo_externals 1 demo_out 0x80000000 False demo_wallet)
     = Inl (Threw ''CHDKeyStore::DeriveHDPubKeyAtIndex(): No more available keys!'')"
  by code_simp

text \<open>
  Claim C3, amended. For an unregistered chain the call returns \<^verbatim>\<open>false\<close> whatever the
  index. For a registered chain every index from \<open>2^31\<close> on makes the call throw
  \<^verbatim>\<open>std::runtime_error\<close> (no more available keys). The index \<open>0x7FFFFFFF\<close> passes the
  check: with valid roots and a public derivation that succeeds the call returns the
  record with \<open>nChild = 0x7FFFFFFF\<close> and the keypath ending in \<^verbatim>\<open>/2147483647\<close>.
\<close>

theorem DeriveHDPubKeyAtIndex_index_bound:
  "(RBT.lookup (mapChains s) cid = None
      \<longrightarrow> fst (DeriveHDPubKeyAtIndex E cid hdPubKeyOut nIndex intern s) = Inl ReturnedFalse)
   \<and> (RBT.lookup (mapChains s) cid = Some hdChain \<and> nIndex \<ge> 0x80000000
      \<longrightarrow> fst (DeriveHDPubKeyAtIndex E cid hdPubKeyOut nIndex intern s) =
            Inl (Threw ''CHDKeyStore::DeriveHDPubKeyAtIndex(): No more available keys!''))
   \<and> (RBT.lookup (mapChains s) cid = Some hdChain
       \<and> CPubKey_IsValid E (CExtPubKey_pubkey E (externalPubKey hdChain))
       \<and> (intern \<longrightarrow> CPubKey_IsValid E (CExtPubKey_pubkey E (internalPubKey hdChain)))
       \<and> CExtPubKey_Derive E
             (if intern then internalPubKey hdChain else externalPubKey hdChain) 0x7FFFFFFF
           = Some childKey
      \<longrightarrow> fst (DeriveHDPubKeyAtIndex E cid hdPubKeyOut 0x7FFFFFFF intern s) =
            Inr (hdPubKeyOut\<lparr>keypath :=
                     replace_all (keypathTemplate hdChain) (CHR ''c'')
                       (if intern then ''1'' else ''0'') @ ''/2147483647'',
                   pubkey := CExtPubKey_pubkey E childKey,
                   chainID := cid, nChild := 0x7FFFFFFF, internal := intern\<rparr>))"
proof (intro conjI impI)
  assume "RBT.lookup (mapChains s) cid = None"
  then show "fst (DeriveHDPubKeyAtIndex E cid hdPubKeyOut nIndex intern s) = Inl ReturnedFalse"
    by (simp add: DeriveHDPubKeyAtIndex_def GetChain_def)
next
  assume "RBT.lookup (mapChains s) cid = Some hdChain \<and> nIndex \<ge> 0x80000000"
  then show "fst (DeriveHDPubKeyAtIndex E cid hdPubKeyOut nIndex intern s) =
            Inl (Threw ''CHDKeyStore::DeriveHDPubKeyAtIndex(): No more available keys!'')"
    by (simp add: DeriveHDPubKeyAtIndex_def GetChain_def)
next
  assume a: "RBT.lookup (mapChains s) cid = Some hdChain
       \<and> CPubKey_IsValid E (CExtPubKey_pubkey E (externalPubKey hdChain))
       \<and> (intern \<longrightarrow> CPubKey_IsValid E (CExtPubKey_pubkey E (internalPubKey hdChain)))
       \<and> CExtPubKey_Derive E
             (if intern then internalPubKey hdChain else externalPubKey hdChain) 0x7FFFFFFF
           = Some childKey"
  have top: "itostr (sint (0x7FFFFFFF :: 32 word)) = ''2147483647''"
    by (simp add: itostr_def dec_digits.simps)
  have idx: "\<not> (0x80000000 :: 32 word) \<le> 0x7FFFFFFF"
    by simp
  have digits: "itostr 1 = ''1''" "itostr 0 = ''0''"
    by (simp_all add: itostr_def dec_digits.simps)
  from a show "fst (DeriveHDPubKeyAtIndex E cid hdPubKeyOut 0x7FFFFFFF intern s) =
            Inr (hdPubKeyOut\<lparr>keypath :=
                     replace_all (keypathTemplate hdChain) (CHR ''c'')
                       (if intern then ''1'' else ''0'') @ ''/2147483647'',
                   pubkey := CExtPubKey_pubkey E childKey,
                   chainID := cid, nChild := 0x7FFFFFFF, internal := intern\<rparr>)"
    unfolding DeriveHDPubKeyAtIndex_def GetChain_def Let_def
    by (cases intern) (simp_all only: top idx digits option.case prod.case sum.case
        if_True if_False simp_thms fst_conv append.simps)
qed

theorem DeriveHDPubKeyAtIndex_index_bound_witness:
  "RBT.lookup (mapChains demo_wallet) 7 = None
   \<and> fst (DeriveHDPubKeyAtIndex demo_externals 7 demo_out 0x80000000 True demo_wallet)
       = Inl ReturnedFalse
   \<and> RBT.lookup (mapChains demo_wallet) 1 = Some (demo_chain 1 5 6)
   \<and> (0x80000000 :: 32 word) \<ge> 0x80000000
   \<and> fst (DeriveHDPubKeyAtIndex demo_externals 1 demo_out 0x80000000 True demo_wallet)
       = Inl (Threw ''CHDKeyStore::DeriveHDPubKeyAtIndex(): No more available keys!'')
   \<and> CPubKey_IsValid demo_externals (CExtPubKey_pubkey demo_externals (externalPubKey (demo_chain 1 5 6)))
   \<and> CPubKey_IsValid demo_externals (CExtPubKey_pubkey demo_externals (internalPubKey (demo_chain 1 5 6)))
   \<and> CExtPubKey_Derive demo_externals (internalPubKey (demo_chain 1 5 6)) 0x7FFFFFFF
       = Some 2147484247
   \<and> fst (DeriveHDPubKeyAtIndex demo_externals 1 demo_out 0x7FFFFFFF True demo_wallet)
       = Inr \<lparr>nVersion = 1, pubkey = 2147484247, nChild = 0x7FFFFFFF, chainID = 1,
              keypath = ''m/0'/1/2147483647'', internal = True\<rparr>"
proof -
  have n: "RBT.lookup (mapChains demo_wallet) 7 = None"
    by (simp add: demo_wallet_def AddChain_def demo_chain_def demo_seeded_def demo_store_def
        AddMasterSeed_def)
  have c: "RBT.lookup (mapChains demo_wallet) 1 = Some (demo_chain 1 5 6)"
    by (simp add: demo_wallet_def AddChain_def demo_chain_def)
  have v: "CPubKey_IsValid demo_externals (CExtPubKey_pubkey demo_externals (externalPubKey (demo_chain 1 5 6)))
     \<and> CPubKey_IsValid demo_externals (CExtPubKey_pubkey demo_externals (internalPubKey (demo_chain 1 5 6)))"
    by (simp add: demo_externals_def demo_chain_def)
  have d: "CExtPubKey_Derive demo_externals (internalPubKey (demo_chain 1 5 6)) 0x7FFFFFFF
       = Some 2147484247"
    by (simp add: demo_externals_def demo_chain_def)
  show ?thesis
    using n c v d
      DeriveHDPubKeyAtIndex_index_bound [of demo_wallet 7 demo_externals demo_out "0x80000000" True]
      DeriveHDPubKeyAtIndex_index_bound [of demo_wallet 1 demo_externals demo_out "0x80000000" True
        "demo_chain 1 5 6" 2147484247]
    by (simp add: demo_out_def replace_all_def)
       (simp add: demo_chain_def replace_all_def demo_externals_def)
qed

text \<open>
  Claim C9. \<^verbatim>\<open>DeriveHDPubKeyAtIndex\<close> leaves the object as it was, for every input and
  every way the call ends: the catalog, the chain registry and both seed maps after the
  call are those before it. For a chain that is not registered it returns \<^verbatim>\<open>false\<close>.
  \<^verbatim>\<open>LoadHDPubKey\<close> is the call that inserts: it maps the key id of the record's public
  key to the record and changes neither the registry nor the seed maps.
\<close>

theorem DeriveHDPubKeyAtIndex_frame:
  "snd (DeriveHDPubKeyAtIndex E cid hdPubKeyOut nIndex intern s) = s
   \<and> (RBT.lookup (mapChains s) cid = None
        \<longrightarrow> fst (DeriveHDPubKeyAtIndex E cid hdPubKeyOut nIndex intern s) = Inl ReturnedFalse)
   \<and> fst (LoadHDPubKey E hdPubKey s)
   \<and> RBT.lookup (mapHDPubKeys (snd (LoadHDPubKey E hdPubKey s))) =
       (RBT.lookup (mapHDPubKeys s))(CPubKey_GetID E (pubkey hdPubKey) \<mapsto> hdPubKey)
   \<and> mapChains (snd (LoadHDPubKey E hdPubKey s)) = mapChains s
   \<and> mapHDMasterSeeds (snd (LoadHDPubKey E hdPubKey s)) = mapHDMasterSeeds s
   \<and> mapHDCryptedMasterSeeds (snd (LoadHDPubKey E hdPubKey s)) = mapHDCryptedMasterSeeds s"
proof (intro conjI impI)
  show "snd (DeriveHDPubKeyAtIndex E cid hdPubKeyOut nIndex intern s) = s"
  proof (cases "RBT.lookup (mapChains s) cid")
    case None
    then show ?thesis
      by (simp add: DeriveHDPubKeyAtIndex_def GetChain_def)
  next
    case (Some hdChain)
    show ?thesis
    proof (cases "0x80000000 \<le> nIndex")
      case True
      with Some show ?thesis
        by (simp add: DeriveHDPubKeyAtIndex_def GetChain_def)
    next
      case False
      let ?base = "replace_all (keypathTemplate hdChain) (CHR ''c'')
                     (itostr (if intern then 1 else 0))"
      let ?path = "?base @ ''/'' @ itostr (sint nIndex) @ [CHR 0x27]"
      show ?thesis
      proof (cases "(intern \<and> \<not> CPubKey_IsValid E (CExtPubKey_pubkey E (internalPubKey hdChain)))
           \<or> \<not> CPubKey_IsValid E (CExtPubKey_pubkey E (externalPubKey hdChain))")
        case True
        have pk: "PrivKeyDer E ?path cid s = (fst (PrivKeyDer E ?path cid s), s)"
          by (rule PrivKeyDer_pair)
        from Some False True have d: "DeriveHDPubKeyAtIndex E cid hdPubKeyOut nIndex intern s =
          (case PrivKeyDer E ?path cid s of
             (Inl e, s2) \<Rightarrow>
               (Inl (Threw ''CHDKeyStore::DeriveHDPubKeyAtIndex(): Private Key Derivation failed!''), s2)
           | (Inr extKeyOut, s2) \<Rightarrow>
               (Inr (hdPubKeyOut\<lparr>keypath := ?path,
                       pubkey := CExtPubKey_pubkey E (CExtKey_Neuter E extKeyOut),
                       chainID := cid, nChild := nIndex, internal := intern\<rparr>), s2))"
          unfolding DeriveHDPubKeyAtIndex_def GetChain_def Let_def
          by (simp only: option.case prod.case sum.case if_False if_True)
        show ?thesis
        proof (cases "fst (PrivKeyDer E ?path cid s)")
          case (Inl e)
          with pk have "PrivKeyDer E ?path cid s = (Inl e, s)" by simp
          then show ?thesis
            unfolding d by simp
        next
          case (Inr extKey)
          with pk have "PrivKeyDer E ?path cid s = (Inr extKey, s)" by simp
          then show ?thesis
            unfolding d by simp
        qed
      next
        case no_seed: False
        with Some False show ?thesis
          unfolding DeriveHDPubKeyAtIndex_def GetChain_def Let_def
          by (simp only: option.case prod.case sum.case if_False if_True split: option.splits)
             simp
      qed
    qed
  qed
next
  assume "RBT.lookup (mapChains s) cid = None"
  then show "fst (DeriveHDPubKeyAtIndex E cid hdPubKeyOut nIndex intern s) = Inl ReturnedFalse"
    by (simp add: DeriveHDPubKeyAtIndex_def GetChain_def)
qed (simp_all add: LoadHDPubKey_def)

theorem DeriveHDPubKeyAtIndex_frame_witness:
  "RBT.lookup (mapChains demo_wallet) 7 = None
   \<and> fst (DeriveHDPubKeyAtIndex demo_externals 7 demo_out 3 False demo_wallet) = Inl ReturnedFalse
   \<and> snd (DeriveHDPubKeyAtIndex demo_externals 7 demo_out 3 False demo_wallet) = demo_wallet"
proof -
  have n: "RBT.lookup (mapChains demo_wallet) 7 = None"
    by (simp add: demo_wallet_def AddChain_def demo_chain_def demo_seeded_def demo_store_def
        AddMasterSeed_def)
  show ?thesis
    using n DeriveHDPubKeyAtIndex_frame [of demo_externals 7 demo_out 3 False demo_wallet]
    by simp
qed

section \<open>The next child index\<close>

lemma index_used_lookup:
  "index_used cid intern s i \<longleftrightarrow>
     (\<exists>keyID r. RBT.lookup (mapHDPubKeys s) keyID = Some r
        \<and> chainID r = cid \<and> internal r = intern \<and> nChild r = i)"
  by (auto simp: index_used_def list_ex_iff lookup_in_tree)

lemma index_used_collect:
  "index_used cid intern s i \<longleftrightarrow> i \<in> set (collect_indices cid intern s)"
  by (auto simp: index_used_def collect_indices_def list_ex_iff image_iff)

lemma unat_succ_below:
  assumes "i < (0x80000000 :: 32 word)"
  shows "unat (i + 1) = Suc (unat i)"
proof -
  from assms have "unat i < 2147483648"
    by (simp add: word_less_nat_alt)
  then have "unat i + unat (1 :: 32 word) < 2 ^ LENGTH(32)"
    by simp
  then have "unat (i + 1) = unat i + unat (1 :: 32 word)"
    by (simp only: unat_add_lem)
  then show ?thesis by simp
qed

lemma first_unused_least:
  assumes "\<exists>j. i \<le> j \<and> j < 0x80000000 \<and> j \<notin> set vIndices"
  shows "i \<le> first_unused vIndices i
       \<and> first_unused vIndices i < 0x80000000
       \<and> first_unused vIndices i \<notin> set vIndices
       \<and> (\<forall>j. i \<le> j \<and> j < first_unused vIndices i \<longrightarrow> j \<in> set vIndices)"
  using assms
proof (induction vIndices i rule: first_unused.induct)
  case (1 vIndices i)
  from "1.prems" obtain j where j: "i \<le> j" "j < 0x80000000" "j \<notin> set vIndices"
    by blast
  then have below: "i < 0x80000000"
    by simp
  show ?case
  proof (cases "i \<in> set vIndices")
    case False
    with below show ?thesis
      by (auto simp: first_unused.simps [of vIndices i])
  next
    case True
    with j have "i \<noteq> j" by auto
    with j(1) have "i < j" by simp
    then have "i + 1 \<le> j" by (rule inc_le)
    with j have ex: "\<exists>j. i + 1 \<le> j \<and> j < 0x80000000 \<and> j \<notin> set vIndices"
      by blast
    have step: "first_unused vIndices i = first_unused vIndices (i + 1)"
      using below True by (simp add: first_unused.simps [of vIndices i])
    have suc: "unat (i + 1) = Suc (unat i)"
      using below by (rule unat_succ_below)
    from "1.IH" [OF below _ ex] True
    have ih: "i + 1 \<le> first_unused vIndices (i + 1)"
      "first_unused vIndices (i + 1) < 0x80000000"
      "first_unused vIndices (i + 1) \<notin> set vIndices"
      "\<forall>j. i + 1 \<le> j \<and> j < first_unused vIndices (i + 1) \<longrightarrow> j \<in> set vIndices"
      by simp_all
    have le: "i \<le> first_unused vIndices (i + 1)"
      using ih(1) suc by (simp add: word_le_nat_alt)
    have rest: "\<forall>j. i \<le> j \<and> j < first_unused vIndices (i + 1) \<longrightarrow> j \<in> set vIndices"
    proof (intro allI impI)
      fix k
      assume k: "i \<le> k \<and> k < first_unused vIndices (i + 1)"
      show "k \<in> set vIndices"
      proof (cases "k = i")
        case True
        with \<open>i \<in> set vIndices\<close> show ?thesis by simp
      next
        case False
        with k have "i < k" by auto
        then have "i + 1 \<le> k" by (rule inc_le)
        with k ih(4) show ?thesis by blast
      qed
    qed
    from le ih(2) ih(3) rest show ?thesis
      by (simp add: step)
  qed
qed

lemma first_unused_none:
  assumes "\<not> (\<exists>j. i \<le> j \<and> j < 0x80000000 \<and> j \<notin> set vIndices)"
  shows "first_unused vIndices i = 0"
  using assms
proof (induction vIndices i rule: first_unused.induct)
  case (1 vIndices i)
  show ?case
  proof (cases "i < 0x80000000")
    case False
    then show ?thesis
      by (simp add: first_unused.simps [of vIndices i])
  next
    case True
    with "1.prems" have mem: "i \<in> set vIndices"
      by auto
    have suc: "unat (i + 1) = Suc (unat i)"
      using True by (rule unat_succ_below)
    have "\<not> (\<exists>j. i + 1 \<le> j \<and> j < 0x80000000 \<and> j \<notin> set vIndices)"
    proof
      assume "\<exists>j. i + 1 \<le> j \<and> j < 0x80000000 \<and> j \<notin> set vIndices"
      then obtain j where j: "i + 1 \<le> j" "j < 0x80000000" "j \<notin> set vIndices"
        by blast
      from j(1) suc have "i \<le> j"
        by (simp add: word_le_nat_alt)
      with j "1.prems" show False by blast
    qed
    from "1.IH" [OF True _ this] mem True show ?thesis
      by (simp add: first_unused.simps [of vIndices i])
  qed
qed

text \<open>
  Claim C4. An index is in use when some record of the catalog has the chain, the side
  and that \<open>nChild\<close>. If some index below \<open>2^31\<close> is not in use,
  \<^verbatim>\<open>GetNextChildIndex\<close> returns the smallest one: it is below \<open>2^31\<close>, not in use, and
  every smaller index is in use. With the indices 0 and 2 in use it returns 1, with 0,
  1, 2 and 100 it returns 3 (gaps are filled). If every index below \<open>2^31\<close> is in use
  it returns 0. The object is unchanged.
\<close>

theorem GetNextChildIndex_least_unused:
  "(index_used cid intern s i \<longleftrightarrow>
      (\<exists>keyID r. RBT.lookup (mapHDPubKeys s) keyID = Some r
         \<and> chainID r = cid \<and> internal r = intern \<and> nChild r = i))
   \<and> ((\<exists>j. j < 0x80000000 \<and> \<not> index_used cid intern s j)
        \<longrightarrow> fst (GetNextChildIndex cid intern s) < 0x80000000
          \<and> \<not> index_used cid intern s (fst (GetNextChildIndex cid intern s))
          \<and> (\<forall>j. j < fst (GetNextChildIndex cid intern s) \<longrightarrow> index_used cid intern s j))
   \<and> ((\<forall>j. index_used cid intern s j \<longleftrightarrow> j \<in> {0, 2})
        \<longrightarrow> fst (GetNextChildIndex cid intern s) = 1)
   \<and> ((\<forall>j. index_used cid intern s j \<longleftrightarrow> j \<in> {0, 1, 2, 100})
        \<longrightarrow> fst (GetNextChildIndex cid intern s) = 3)
   \<and> ((\<forall>j. j < 0x80000000 \<longrightarrow> index_used cid intern s j)
        \<longrightarrow> fst (GetNextChildIndex cid intern s) = 0)
   \<and> snd (GetNextChildIndex cid intern s) = s"
proof -
  let ?v = "collect_indices cid intern s"
  let ?r = "fst (GetNextChildIndex cid intern s)"
  have r: "?r = first_unused ?v 0"
    by (simp add: GetNextChildIndex_def)
  have least: "?r < 0x80000000 \<and> \<not> index_used cid intern s ?r
      \<and> (\<forall>j. j < ?r \<longrightarrow> index_used cid intern s j)"
    if free: "j < 0x80000000" "\<not> index_used cid intern s j" for j
  proof -
    from free have "\<exists>j. 0 \<le> j \<and> j < 0x80000000 \<and> j \<notin> set ?v"
      by (auto simp: index_used_collect)
    from first_unused_least [OF this] show ?thesis
      by (simp add: r index_used_collect)
  qed
  have ex1: "?r = 1" if used: "\<forall>j. index_used cid intern s j \<longleftrightarrow> j \<in> {0, 2}"
  proof -
    from used have "(1 :: 32 word) < 0x80000000" "\<not> index_used cid intern s 1"
      by simp_all
    from least [OF this] used
    have p: "?r \<noteq> 0" "?r \<noteq> 2" "\<forall>j. j < ?r \<longrightarrow> j = 0 \<or> j = 2"
      by auto
    have "\<not> 1 < ?r"
      using p(3) by auto
    then have "unat ?r \<le> 1"
      by (simp add: word_less_nat_alt)
    moreover from p(1) have "unat ?r \<noteq> 0"
      by (simp add: unat_0_iff)
    ultimately have "unat ?r = unat (1 :: 32 word)"
      by simp
    then show ?thesis
      by (simp only: word_unat_eq_iff)
  qed
  have ex2: "?r = 3" if used: "\<forall>j. index_used cid intern s j \<longleftrightarrow> j \<in> {0, 1, 2, 100}"
  proof -
    from used have "(3 :: 32 word) < 0x80000000" "\<not> index_used cid intern s 3"
      by simp_all
    from least [OF this] used
    have p: "?r \<noteq> 0" "?r \<noteq> 1" "?r \<noteq> 2"
      "\<forall>j. j < ?r \<longrightarrow> j = 0 \<or> j = 1 \<or> j = 2 \<or> j = 100"
      by auto
    have "\<not> 3 < ?r"
      using p(4) by auto
    then have "unat ?r \<le> 3"
      by (simp add: word_less_nat_alt)
    moreover from p(1) have "unat ?r \<noteq> 0"
      by (simp add: unat_0_iff)
    moreover from p(2) have "unat ?r \<noteq> unat (1 :: 32 word)"
      by (simp only: word_unat_eq_iff) simp
    moreover from p(3) have "unat ?r \<noteq> unat (2 :: 32 word)"
      by (simp only: word_unat_eq_iff) simp
    ultimately have "unat ?r = unat (3 :: 32 word)"
      by simp
    then show ?thesis
      by (simp only: word_unat_eq_iff)
  qed
  have none: "?r = 0" if full: "\<forall>j. j < 0x80000000 \<longrightarrow> index_used cid intern s j"
  proof -
    from full have "\<not> (\<exists>j. 0 \<le> j \<and> j < 0x80000000 \<and> j \<notin> set ?v)"
      by (auto simp: index_used_collect)
    from first_unused_none [OF this] show ?thesis
      by (simp add: r)
  qed
  show ?thesis
    using least ex1 ex2 none
    by (auto simp: index_used_lookup [symmetric] GetNextChildIndex_def)
qed

theorem GetNextChildIndex_least_unused_witness:
  "(1 :: 32 word) < 0x80000000
   \<and> \<not> index_used 1 False demo_catalog 1
   \<and> index_used 1 False demo_catalog 0
   \<and> index_used 1 False demo_catalog 2
   \<and> index_used 1 True demo_catalog 1
   \<and> fst (GetNextChildIndex 1 False demo_catalog) = 1
   \<and> fst (GetNextChildIndex 1 False demo_catalog) < 0x80000000
   \<and> \<not> index_used 1 False demo_catalog (fst (GetNextChildIndex 1 False demo_catalog))"
proof -
  have free: "(1 :: 32 word) < 0x80000000 \<and> \<not> index_used 1 False demo_catalog 1"
    by code_simp
  have used: "index_used 1 False demo_catalog 0 \<and> index_used 1 False demo_catalog 2
      \<and> index_used 1 True demo_catalog 1"
    by code_simp
  have val: "fst (GetNextChildIndex 1 False demo_catalog) = 1"
    by code_simp
  from free have "\<exists>j. j < 0x80000000 \<and> \<not> index_used 1 False demo_catalog j"
    by blast
  with GetNextChildIndex_least_unused [of 1 False demo_catalog]
  have "fst (GetNextChildIndex 1 False demo_catalog) < 0x80000000
      \<and> \<not> index_used 1 False demo_catalog (fst (GetNextChildIndex 1 False demo_catalog))"
    by blast
  with free used val show ?thesis
    by simp
qed

section \<open>Encrypting the seeds\<close>

lemma seeds_disjoint_iff:
  "seeds_disjoint s \<longleftrightarrow>
     (\<forall>cid. RBT.lookup (mapHDMasterSeeds s) cid = None
          \<or> RBT.lookup (mapHDCryptedMasterSeeds s) cid = None)"
proof -
  have "set (RBT.keys (mapHDMasterSeeds s)) = dom (RBT.lookup (mapHDMasterSeeds s))"
    by (simp add: lookup_keys)
  then have "seeds_disjoint s \<longleftrightarrow>
      (\<forall>cid \<in> dom (RBT.lookup (mapHDMasterSeeds s)).
         RBT.lookup (mapHDCryptedMasterSeeds s) cid = None)"
    by (simp add: seeds_disjoint_def list_all_iff)
  also have "\<dots> \<longleftrightarrow>
     (\<forall>cid. RBT.lookup (mapHDMasterSeeds s) cid = None
          \<or> RBT.lookup (mapHDCryptedMasterSeeds s) cid = None)"
    unfolding Ball_def domIff by (simp only: imp_conv_disj not_not)
  finally show ?thesis .
qed

lemma EncryptSeeds_loop_frame:
  "EncryptSeeds_loop es s = (ok, s') \<Longrightarrow>
     s' = s\<lparr>mapHDCryptedMasterSeeds := mapHDCryptedMasterSeeds s'\<rparr>"
proof (induction es arbitrary: s)
  case Nil
  then show ?case by simp
next
  case (Cons e es)
  obtain cid seed where e: "e = (cid, seed)" by (cases e)
  show ?case
  proof (cases "EncryptSeed s seed cid")
    case None
    with Cons.prems e show ?thesis by simp
  next
    case (Some blob)
    let ?s1 = "s\<lparr>mapHDCryptedMasterSeeds := RBT.insert cid blob (mapHDCryptedMasterSeeds s)\<rparr>"
    from Cons.prems e Some have "EncryptSeeds_loop es ?s1 = (ok, s')"
      by (simp add: AddCryptedMasterSeed_def)
    from Cons.IH [OF this] have "s' = ?s1\<lparr>mapHDCryptedMasterSeeds := mapHDCryptedMasterSeeds s'\<rparr>" .
    then show ?thesis by simp
  qed
qed

lemma EncryptSeeds_loop_other:
  "EncryptSeeds_loop es s = (ok, s') \<Longrightarrow> cid \<notin> fst ` set es \<Longrightarrow>
     RBT.lookup (mapHDCryptedMasterSeeds s') cid = RBT.lookup (mapHDCryptedMasterSeeds s) cid"
proof (induction es arbitrary: s)
  case Nil
  then show ?case by simp
next
  case (Cons e es)
  obtain c seed where e: "e = (c, seed)" by (cases e)
  show ?case
  proof (cases "EncryptSeed s seed c")
    case None
    with Cons.prems e show ?thesis by simp
  next
    case (Some blob)
    let ?s1 = "s\<lparr>mapHDCryptedMasterSeeds := RBT.insert c blob (mapHDCryptedMasterSeeds s)\<rparr>"
    from Cons.prems e Some have run: "EncryptSeeds_loop es ?s1 = (ok, s')"
      by (simp add: AddCryptedMasterSeed_def)
    from Cons.prems e have "cid \<notin> fst ` set es" "cid \<noteq> c"
      by auto
    with Cons.IH [OF run] show ?thesis by simp
  qed
qed

lemma EncryptSeeds_loop_wrapped:
  "EncryptSeeds_loop es s = (True, s') \<Longrightarrow> distinct (map fst es) \<Longrightarrow> (cid, seed) \<in> set es \<Longrightarrow>
     \<exists>blob. EncryptSeed s seed cid = Some blob
        \<and> RBT.lookup (mapHDCryptedMasterSeeds s') cid = Some blob"
proof (induction es arbitrary: s)
  case Nil
  then show ?case by simp
next
  case (Cons e es)
  obtain c sd where e: "e = (c, sd)" by (cases e)
  show ?case
  proof (cases "EncryptSeed s sd c")
    case None
    with Cons.prems e show ?thesis by simp
  next
    case (Some blob)
    let ?s1 = "s\<lparr>mapHDCryptedMasterSeeds := RBT.insert c blob (mapHDCryptedMasterSeeds s)\<rparr>"
    from Cons.prems e Some have run: "EncryptSeeds_loop es ?s1 = (True, s')"
      by (simp add: AddCryptedMasterSeed_def)
    from Cons.prems e have dist: "distinct (map fst es)" "c \<notin> fst ` set es"
      by auto
    show ?thesis
    proof (cases "(cid, seed) = (c, sd)")
      case True
      from EncryptSeeds_loop_other [OF run dist(2)]
      have "RBT.lookup (mapHDCryptedMasterSeeds s') c = Some blob"
        by simp
      with True Some show ?thesis by simp
    next
      case False
      with Cons.prems e have "(cid, seed) \<in> set es" by auto
      from Cons.IH [OF run dist(1) this] show ?thesis by simp
    qed
  qed
qed

lemma EncryptSeeds_result:
  "EncryptSeeds s =
     (fst (EncryptSeeds_loop (RBT.entries (mapHDMasterSeeds s)) s),
      if fst (EncryptSeeds_loop (RBT.entries (mapHDMasterSeeds s)) s)
      then snd (EncryptSeeds_loop (RBT.entries (mapHDMasterSeeds s)) s)
             \<lparr>mapHDMasterSeeds := RBT.empty\<rparr>
      else snd (EncryptSeeds_loop (RBT.entries (mapHDMasterSeeds s)) s))"
  by (cases "EncryptSeeds_loop (RBT.entries (mapHDMasterSeeds s)) s")
     (simp add: EncryptSeeds_def split: bool.splits)

text \<open>
  Claim C5 as stated fails. On a store that holds the seed of chain 1 and whose
  collaborator does not report \<^verbatim>\<open>IsCrypted()\<close>, \<^verbatim>\<open>EncryptSeeds\<close> succeeds (the cipher
  wraps the seed and its \<^verbatim>\<open>DecryptSeed\<close> inverts the wrap), yet \<^verbatim>\<open>GetCryptedMasterSeed\<close>
  of chain 1 returns \<^verbatim>\<open>false\<close> afterwards: \<^verbatim>\<open>EncryptSeeds\<close> does not switch the store
  to the crypted state.
\<close>

theorem EncryptSeeds_not_crypted_counterexample:
  "fst (EncryptSeeds demo_plain)
   \<and> RBT.lookup (mapHDMasterSeeds demo_plain) 1 = Some [1, 2, 3]
   \<and> DecryptSeed demo_plain (the (EncryptSeed demo_plain [1, 2, 3] 1)) 1 = Some [1, 2, 3]
   \<and> fst (GetCryptedMasterSeed 1 (snd (EncryptSeeds demo_plain))) = Inl ReturnedFalse"
  by code_simp

text \<open>
  Claim C5, amended. After a successful \<^verbatim>\<open>EncryptSeeds\<close> the plaintext map is empty,
  \<^verbatim>\<open>IsCrypted()\<close> is what it was, and for every pair stored before the call the crypted
  map holds the blob that \<^verbatim>\<open>EncryptSeed\<close> made of the seed. When the collaborator
  reports \<^verbatim>\<open>IsCrypted()\<close>, \<^verbatim>\<open>GetCryptedMasterSeed\<close> succeeds with that blob; when moreover
  \<^verbatim>\<open>DecryptSeed\<close> turns the blob back into the seed, it does so after the call, and
  \<^verbatim>\<open>GetMasterSeed\<close> returns the seed.
\<close>

theorem EncryptSeeds_success:
  assumes "fst (EncryptSeeds s)" and "RBT.lookup (mapHDMasterSeeds s) cid = Some seed"
  shows "RBT.is_empty (mapHDMasterSeeds (snd (EncryptSeeds s)))
   \<and> IsCrypted (snd (EncryptSeeds s)) = IsCrypted s
   \<and> (\<exists>blob. EncryptSeed s seed cid = Some blob
         \<and> RBT.lookup (mapHDCryptedMasterSeeds (snd (EncryptSeeds s))) cid = Some blob
         \<and> (IsCrypted s \<longrightarrow> fst (GetCryptedMasterSeed cid (snd (EncryptSeeds s))) = Inr blob)
         \<and> (IsCrypted s \<and> DecryptSeed s blob cid = Some seed
              \<longrightarrow> DecryptSeed (snd (EncryptSeeds s)) blob cid = Some seed
                \<and> fst (GetMasterSeed cid (snd (EncryptSeeds s))) = Inr seed))"
proof -
  let ?es = "RBT.entries (mapHDMasterSeeds s)"
  obtain s1 where run: "EncryptSeeds_loop ?es s = (True, s1)"
    using assms(1) by (cases "EncryptSeeds_loop ?es s") (simp add: EncryptSeeds_result)
  then have after: "snd (EncryptSeeds s) = s1\<lparr>mapHDMasterSeeds := RBT.empty\<rparr>"
    by (simp add: EncryptSeeds_result)
  from EncryptSeeds_loop_frame [OF run]
  have frame: "s1 = s\<lparr>mapHDCryptedMasterSeeds := mapHDCryptedMasterSeeds s1\<rparr>" .
  have base: "IsCrypted s1 = IsCrypted s" "DecryptSeed s1 = DecryptSeed s"
    by (subst frame, simp)+
  have "distinct (map fst ?es)"
    by (rule distinct_entries)
  moreover from assms(2) have "(cid, seed) \<in> set ?es"
    by (simp add: lookup_in_tree)
  ultimately obtain blob where blob: "EncryptSeed s seed cid = Some blob"
    "RBT.lookup (mapHDCryptedMasterSeeds s1) cid = Some blob"
    using EncryptSeeds_loop_wrapped [OF run] by blast
  show ?thesis
    using blob base
    by (simp add: after GetCryptedMasterSeed_def GetMasterSeed_def)
qed

theorem EncryptSeeds_success_witness:
  "fst (EncryptSeeds (demo_plain\<lparr>IsCrypted := True\<rparr>))
   \<and> RBT.lookup (mapHDMasterSeeds (demo_plain\<lparr>IsCrypted := True\<rparr>)) 1 = Some [1, 2, 3]
   \<and> RBT.is_empty (mapHDMasterSeeds (snd (EncryptSeeds (demo_plain\<lparr>IsCrypted := True\<rparr>))))
   \<and> fst (GetCryptedMasterSeed 1 (snd (EncryptSeeds (demo_plain\<lparr>IsCrypted := True\<rparr>))))
       = Inr [3, 2, 1]
   \<and> fst (GetMasterSeed 1 (snd (EncryptSeeds (demo_plain\<lparr>IsCrypted := True\<rparr>))))
       = Inr [1, 2, 3]"
proof -
  let ?s = "demo_plain\<lparr>IsCrypted := True\<rparr>"
  have ok: "fst (EncryptSeeds ?s)"
    by code_simp
  have stored: "RBT.lookup (mapHDMasterSeeds ?s) 1 = Some [1, 2, 3]"
    by (simp add: demo_plain_def demo_store_def AddMasterSeed_def)
  have enc: "EncryptSeed ?s [1, 2, 3] 1 = Some [3, 2, 1]" "IsCrypted ?s"
    "DecryptSeed ?s [3, 2, 1] 1 = Some [1, 2, 3]"
    by (simp_all add: demo_plain_def demo_store_def AddMasterSeed_def)
  show ?thesis
    using ok stored enc EncryptSeeds_success [OF ok stored]
    by auto
qed

lemma EncryptSeeds_loop_completes:
  "fst (EncryptSeeds_loop es s) = list_all (\<lambda>(c, sd). EncryptSeed s sd c \<noteq> None) es"
proof (induction es arbitrary: s)
  case Nil
  then show ?case by simp
next
  case (Cons e es)
  obtain c sd where e: "e = (c, sd)" by (cases e)
  show ?case
  proof (cases "EncryptSeed s sd c")
    case None
    with e show ?thesis by simp
  next
    case (Some blob)
    let ?s1 = "s\<lparr>mapHDCryptedMasterSeeds := RBT.insert c blob (mapHDCryptedMasterSeeds s)\<rparr>"
    have "fst (EncryptSeeds_loop es ?s1) = list_all (\<lambda>(c, sd). EncryptSeed ?s1 sd c \<noteq> None) es"
      by (rule Cons.IH)
    with e Some show ?thesis
      by (simp add: AddCryptedMasterSeed_def)
  qed
qed

lemma EncryptSeeds_loop_aborted:
  "EncryptSeeds_loop es s = (False, s') \<Longrightarrow> distinct (map fst es) \<Longrightarrow>
     RBT.lookup (mapHDCryptedMasterSeeds s') cid =
       (case map_of (takeWhile (\<lambda>(c, sd). EncryptSeed s sd c \<noteq> None) es) cid of
          None \<Rightarrow> RBT.lookup (mapHDCryptedMasterSeeds s) cid
        | Some seed \<Rightarrow> EncryptSeed s seed cid)"
proof (induction es arbitrary: s)
  case Nil
  then show ?case by simp
next
  case (Cons e es)
  obtain c sd where e: "e = (c, sd)" by (cases e)
  show ?case
  proof (cases "EncryptSeed s sd c")
    case None
    with Cons.prems e show ?thesis by simp
  next
    case (Some blob)
    let ?s1 = "s\<lparr>mapHDCryptedMasterSeeds := RBT.insert c blob (mapHDCryptedMasterSeeds s)\<rparr>"
    let ?wrapped = "takeWhile (\<lambda>(c, sd). EncryptSeed s sd c \<noteq> None) es"
    from Cons.prems e Some have run: "EncryptSeeds_loop es ?s1 = (False, s')"
      by (simp add: AddCryptedMasterSeed_def)
    from Cons.prems e have dist: "distinct (map fst es)" "c \<notin> fst ` set es"
      by auto
    from Cons.IH [OF run dist(1)]
    have ih: "RBT.lookup (mapHDCryptedMasterSeeds s') cid =
       (case map_of ?wrapped cid of
          None \<Rightarrow> RBT.lookup (mapHDCryptedMasterSeeds ?s1) cid
        | Some seed \<Rightarrow> EncryptSeed s seed cid)"
      by (simp split: option.splits)
    have tw: "takeWhile (\<lambda>(c, sd). EncryptSeed s sd c \<noteq> None) (e # es) = (c, sd) # ?wrapped"
      using e Some by simp
    show ?thesis
    proof (cases "cid = c")
      case True
      have "set ?wrapped \<subseteq> set es"
        by (auto dest: set_takeWhileD)
      with dist(2) have "c \<notin> fst ` set ?wrapped"
        by auto
      then have "map_of ?wrapped c = None"
        by (simp add: map_of_eq_None_iff)
      with ih True Some show ?thesis
        unfolding tw by simp
    next
      case False
      with ih show ?thesis
        unfolding tw by (simp split: option.splits)
    qed
  qed
qed

text \<open>
  Claim C2 as stated fails. The seeded store has an empty crypted map. Its cipher cannot
  wrap the seed of chain 2, so \<^verbatim>\<open>EncryptSeeds\<close> wraps chain 1, fails at chain 2 and
  returns \<^verbatim>\<open>false\<close>: chain 1 is then in both maps. \<^verbatim>\<open>AddCryptedMasterSeed\<close> of chain 1
  on the seeded store also puts chain 1 in both maps.
\<close>

theorem seed_maps_overlap_counterexample:
  "seeds_disjoint demo_seeded
   \<and> \<not> fst (EncryptSeeds demo_seeded)
   \<and> \<not> seeds_disjoint (snd (EncryptSeeds demo_seeded))
   \<and> RBT.lookup (mapHDMasterSeeds (snd (EncryptSeeds demo_seeded))) 1 = Some (replicate 74 0)
   \<and> RBT.lookup (mapHDCryptedMasterSeeds (snd (EncryptSeeds demo_seeded))) 1
       = Some (replicate 74 0)
   \<and> \<not> seeds_disjoint (snd (AddCryptedMasterSeed 1 [9] demo_seeded))"
  by code_simp

text \<open>
  Claim C2, amended. \<^verbatim>\<open>AddMasterSeed\<close> and \<^verbatim>\<open>AddCryptedMasterSeed\<close> keep the two maps
  disjoint when the chain they insert is not in the map they do not write.
  \<^verbatim>\<open>EncryptSeeds\<close> succeeds exactly when every seed of the plaintext map can be wrapped,
  and a successful \<^verbatim>\<open>EncryptSeeds\<close> returns with the maps disjoint. An \<^verbatim>\<open>EncryptSeeds\<close>
  that fails leaves the plaintext map as it was and keeps what it has inserted: for the
  chains that come, in key order, before the first seed that cannot be wrapped, the
  crypted map holds the wrap of the plaintext seed, and every other entry of the crypted
  map is as before. Each of those chains is then in both maps, and the maps are not
  disjoint.
\<close>

theorem seed_maps_disjointness:
  "(seeds_disjoint s
      \<and> RBT.lookup (if IsCrypted s then mapHDMasterSeeds s else mapHDCryptedMasterSeeds s) cid
          = None
      \<longrightarrow> seeds_disjoint (snd (AddMasterSeed cid seed s)))
   \<and> (seeds_disjoint s \<and> RBT.lookup (mapHDMasterSeeds s) cid = None
      \<longrightarrow> seeds_disjoint (snd (AddCryptedMasterSeed cid blob s)))
   \<and> (fst (EncryptSeeds s) \<longrightarrow> seeds_disjoint (snd (EncryptSeeds s)))
   \<and> fst (EncryptSeeds s)
       = list_all (\<lambda>(c, sd). EncryptSeed s sd c \<noteq> None) (RBT.entries (mapHDMasterSeeds s))
   \<and> (\<not> fst (EncryptSeeds s)
      \<longrightarrow> mapHDMasterSeeds (snd (EncryptSeeds s)) = mapHDMasterSeeds s
        \<and> RBT.lookup (mapHDCryptedMasterSeeds (snd (EncryptSeeds s))) cid
            = (case map_of (takeWhile (\<lambda>(c, sd). EncryptSeed s sd c \<noteq> None)
                              (RBT.entries (mapHDMasterSeeds s))) cid of
                 None \<Rightarrow> RBT.lookup (mapHDCryptedMasterSeeds s) cid
               | Some seed' \<Rightarrow> EncryptSeed s seed' cid)
        \<and> (cid \<in> fst ` set (takeWhile (\<lambda>(c, sd). EncryptSeed s sd c \<noteq> None)
                               (RBT.entries (mapHDMasterSeeds s)))
           \<longrightarrow> RBT.lookup (mapHDMasterSeeds (snd (EncryptSeeds s))) cid \<noteq> None
             \<and> RBT.lookup (mapHDCryptedMasterSeeds (snd (EncryptSeeds s))) cid \<noteq> None
             \<and> \<not> seeds_disjoint (snd (EncryptSeeds s))))"
proof -
  let ?es = "RBT.entries (mapHDMasterSeeds s)"
  let ?wrapped = "takeWhile (\<lambda>(c, sd). EncryptSeed s sd c \<noteq> None) ?es"
  have add: "seeds_disjoint (snd (AddMasterSeed cid seed s))"
    if "seeds_disjoint s
      \<and> RBT.lookup (if IsCrypted s then mapHDMasterSeeds s else mapHDCryptedMasterSeeds s) cid
          = None"
    using that by (auto simp: seeds_disjoint_iff AddMasterSeed_def split: option.splits)
  have add_crypted: "seeds_disjoint (snd (AddCryptedMasterSeed cid blob s))"
    if "seeds_disjoint s \<and> RBT.lookup (mapHDMasterSeeds s) cid = None"
    using that by (auto simp: seeds_disjoint_iff AddCryptedMasterSeed_def)
  have finished: "seeds_disjoint (snd (EncryptSeeds s))" if "fst (EncryptSeeds s)"
    using that by (simp add: seeds_disjoint_iff EncryptSeeds_result)
  have completes: "fst (EncryptSeeds s) = list_all (\<lambda>(c, sd). EncryptSeed s sd c \<noteq> None) ?es"
    by (simp add: EncryptSeeds_result EncryptSeeds_loop_completes)
  have aborted: "mapHDMasterSeeds (snd (EncryptSeeds s)) = mapHDMasterSeeds s
        \<and> RBT.lookup (mapHDCryptedMasterSeeds (snd (EncryptSeeds s))) cid
            = (case map_of ?wrapped cid of
                 None \<Rightarrow> RBT.lookup (mapHDCryptedMasterSeeds s) cid
               | Some seed' \<Rightarrow> EncryptSeed s seed' cid)
        \<and> (cid \<in> fst ` set ?wrapped
           \<longrightarrow> RBT.lookup (mapHDMasterSeeds (snd (EncryptSeeds s))) cid \<noteq> None
             \<and> RBT.lookup (mapHDCryptedMasterSeeds (snd (EncryptSeeds s))) cid \<noteq> None
             \<and> \<not> seeds_disjoint (snd (EncryptSeeds s)))"
    if failed: "\<not> fst (EncryptSeeds s)"
  proof -
    obtain s1 where run: "EncryptSeeds_loop ?es s = (False, s1)"
      using failed by (cases "EncryptSeeds_loop ?es s") (simp add: EncryptSeeds_result)
    then have after: "snd (EncryptSeeds s) = s1"
      by (simp add: EncryptSeeds_result)
    from EncryptSeeds_loop_frame [OF run]
    have frame: "s1 = s\<lparr>mapHDCryptedMasterSeeds := mapHDCryptedMasterSeeds s1\<rparr>" .
    have plain: "mapHDMasterSeeds s1 = mapHDMasterSeeds s"
      by (subst frame) simp
    have dist: "distinct (map fst ?es)"
      by (rule distinct_entries)
    note kept = EncryptSeeds_loop_aborted [OF run dist, of cid]
    have both: "RBT.lookup (mapHDMasterSeeds s1) cid \<noteq> None
             \<and> RBT.lookup (mapHDCryptedMasterSeeds s1) cid \<noteq> None
             \<and> \<not> seeds_disjoint s1"
      if "cid \<in> fst ` set ?wrapped"
    proof -
      from that obtain sd where sd: "(cid, sd) \<in> set ?wrapped"
        by auto
      then have "(cid, sd) \<in> set ?es"
        by (rule set_takeWhileD [THEN conjunct1])
      then have stored: "RBT.lookup (mapHDMasterSeeds s) cid = Some sd"
        by (simp add: lookup_in_tree)
      from sd have wrap: "EncryptSeed s sd cid \<noteq> None"
        using set_takeWhileD [OF sd] by simp
      have "map fst ?es = map fst ?wrapped
          @ map fst (dropWhile (\<lambda>(c, sd). EncryptSeed s sd c \<noteq> None) ?es)"
        by (simp only: map_append [symmetric] takeWhile_dropWhile_id)
      with dist have "distinct (map fst ?wrapped
          @ map fst (dropWhile (\<lambda>(c, sd). EncryptSeed s sd c \<noteq> None) ?es))"
        by (simp only:)
      then have "distinct (map fst ?wrapped)"
        by (simp only: distinct_append)
      from this sd have "map_of ?wrapped cid = Some sd"
        by (rule map_of_is_SomeI)
      with kept have "RBT.lookup (mapHDCryptedMasterSeeds s1) cid = EncryptSeed s sd cid"
        by simp
      with wrap stored plain show ?thesis
        by (auto simp: seeds_disjoint_iff)
    qed
    from plain kept both show ?thesis
      by (simp add: after)
  qed
  from add add_crypted finished completes aborted show ?thesis
    by blast
qed

theorem seed_maps_disjointness_witness:
  "seeds_disjoint demo_plain
   \<and> RBT.lookup (mapHDCryptedMasterSeeds demo_plain) 2 = None
   \<and> seeds_disjoint (snd (AddMasterSeed 2 [7] demo_plain))
   \<and> RBT.lookup (mapHDMasterSeeds demo_plain) 2 = None
   \<and> seeds_disjoint (snd (AddCryptedMasterSeed 2 [8] demo_plain))
   \<and> fst (EncryptSeeds demo_plain)
   \<and> seeds_disjoint (snd (EncryptSeeds demo_plain))
   \<and> \<not> fst (EncryptSeeds demo_seeded)
   \<and> mapHDMasterSeeds (snd (EncryptSeeds demo_seeded)) = mapHDMasterSeeds demo_seeded
   \<and> takeWhile (\<lambda>(c, sd). EncryptSeed demo_seeded sd c \<noteq> None)
       (RBT.entries (mapHDMasterSeeds demo_seeded)) = [(1, replicate 74 0)]
   \<and> RBT.lookup (mapHDCryptedMasterSeeds (snd (EncryptSeeds demo_seeded))) 1
       = EncryptSeed demo_seeded (replicate 74 0) 1
   \<and> RBT.lookup (mapHDMasterSeeds (snd (EncryptSeeds demo_seeded))) 1 \<noteq> None
   \<and> RBT.lookup (mapHDCryptedMasterSeeds (snd (EncryptSeeds demo_seeded))) 1 \<noteq> None
   \<and> \<not> seeds_disjoint (snd (EncryptSeeds demo_seeded))
   \<and> RBT.lookup (mapHDCryptedMasterSeeds (snd (EncryptSeeds demo_seeded))) 2
       = RBT.lookup (mapHDCryptedMasterSeeds demo_seeded) 2"
proof -
  have d: "seeds_disjoint demo_plain"
    by code_simp
  have n: "RBT.lookup (mapHDCryptedMasterSeeds demo_plain) 2 = None"
    "RBT.lookup (mapHDMasterSeeds demo_plain) 2 = None" "\<not> IsCrypted demo_plain"
    by (simp_all add: demo_plain_def demo_store_def AddMasterSeed_def)
  have ok: "fst (EncryptSeeds demo_plain)"
    by code_simp
  have failed: "\<not> fst (EncryptSeeds demo_seeded)"
    by code_simp
  have wrapped: "takeWhile (\<lambda>(c, sd). EncryptSeed demo_seeded sd c \<noteq> None)
       (RBT.entries (mapHDMasterSeeds demo_seeded)) = [(1, replicate 74 0)]"
    by code_simp
  note aborted = seed_maps_disjointness [THEN conjunct2, THEN conjunct2, THEN conjunct2,
      THEN conjunct2, THEN mp, OF failed, unfolded wrapped]
  have plain: "mapHDMasterSeeds (snd (EncryptSeeds demo_seeded)) = mapHDMasterSeeds demo_seeded"
    using aborted [of 2] by simp
  have other: "RBT.lookup (mapHDCryptedMasterSeeds (snd (EncryptSeeds demo_seeded))) 2
       = RBT.lookup (mapHDCryptedMasterSeeds demo_seeded) 2"
    using aborted [of 2] by simp
  have kept: "RBT.lookup (mapHDCryptedMasterSeeds (snd (EncryptSeeds demo_seeded))) 1
       = EncryptSeed demo_seeded (replicate 74 0) 1"
    using aborted [of 1] by simp
  have first: "(1 :: HDChainID) \<in> fst ` set [(1, replicate 74 (0 :: 8 word))]"
    by simp
  have both: "RBT.lookup (mapHDMasterSeeds (snd (EncryptSeeds demo_seeded))) 1 \<noteq> None
     \<and> RBT.lookup (mapHDCryptedMasterSeeds (snd (EncryptSeeds demo_seeded))) 1 \<noteq> None
     \<and> \<not> seeds_disjoint (snd (EncryptSeeds demo_seeded))"
    using aborted [of 1] first by blast
  show ?thesis
    using d n ok failed wrapped plain other kept both
      seed_maps_disjointness [of demo_plain 2 "[7]" "[8]"]
    by simp
qed

end
